theory Spec2Isabelle
  imports Main "HOL-Library.AList" "HOL-Library.Sublist"
begin

section \<open>Data model\<close>

text \<open>
  A tool call as the chat framework hands it to \<^verbatim>\<open>src/agent/graph.py\<close>: a dictionary with
  the keys \<^verbatim>\<open>name\<close>, \<^verbatim>\<open>args\<close> and \<^verbatim>\<open>id\<close>. The argument dictionary is an association
  list: a Python dict keeps insertion order, and \<^verbatim>\<open>dict.update\<close> overwrites an existing
  key where it stands and appends a new one, which is what \<open>AList.update\<close> does.
  Argument values are kept as strings.
\<close>

type_synonym args = "(string \<times> string) list"

record tool_call =
  tc_name :: string
  tc_args :: args
  tc_id :: string

text \<open>
  The four message classes the source imports. Only an assistant message carries tool
  calls; a tool-result message carries the identifier of the call it answers.
\<close>

datatype message =
    SystemMessage string
  | HumanMessage string
  | AIMessage string "tool_call list"
  | ToolMessage string string

fun content :: "message \<Rightarrow> string" where
  "content (SystemMessage c) = c"
| "content (HumanMessage c) = c"
| "content (AIMessage c tcs) = c"
| "content (ToolMessage i c) = c"

text \<open>\<^verbatim>\<open>getattr(message, "tool_calls", [])\<close>: the attribute exists on assistant messages only.\<close>

fun tool_calls :: "message \<Rightarrow> tool_call list" where
  "tool_calls (AIMessage c tcs) = tcs"
| "tool_calls m = []"

fun tool_call_id :: "message \<Rightarrow> string option" where
  "tool_call_id (ToolMessage i c) = Some i"
| "tool_call_id m = None"

text \<open>
  The exceptions a turn can end with. \<open>IndexError\<close> is \<^verbatim>\<open>state.messages[-1]\<close> on an empty
  sequence, \<open>KeyError\<close> a missing configuration key, \<open>TypeError\<close> indexing a string with a
  key; \<open>GraphRecursionError\<close> and \<open>ValueError\<close> are raised by the graph framework.
\<close>

datatype error = IndexError | KeyError | TypeError | GraphRecursionError | ValueError

text \<open>
  A tool of the registry, seen from \<^verbatim>\<open>invoke_tool\<close>: it is awaited with the argument
  dictionary and either raises an exception \<open>e\<close> (\<open>Inl\<close> of \<^verbatim>\<open>str(e)\<close>) or returns a value
  (\<open>Inr\<close> of \<^verbatim>\<open>str(res)\<close>). What it does to the memory service is outside the model.
\<close>

type_synonym tool = "args \<Rightarrow> string + string"

text \<open>
  The invocation configuration \<^verbatim>\<open>self._config\<close>: the thread identifier under
  \<^verbatim>\<open>"configurable"\<close> and, when the key is there, \<^verbatim>\<open>"recursion_limit"\<close>.
\<close>

record invoke_config =
  cfg_thread_id :: string
  cfg_recursion_limit :: "nat option"

text \<open>
  The session object \<^verbatim>\<open>AgenticChatBot\<close>. The language model, its tokenizer and the tools
  are external collaborators and appear as functions:
  \<^item> \<open>llm_with_tools\<close> answers a message sequence with the content and the tool calls of one
    assistant message;
  \<^item> \<open>get_num_tokens\<close> is \<^verbatim>\<open>llm.get_num_tokens\<close>, the token count of a text by the model's
    tokenizer;
  \<^item> \<open>approx_tokens\<close> is what \<^verbatim>\<open>count_tokens_approximately\<close> charges for one message (the
    library adds these charges up over a sequence); the library's charge is
    \<open>approx_message_tokens\<close> below, which needs the length of the printed tool calls;
  \<^item> \<open>max_context\<close> is \<^verbatim>\<open>llm_config.get("max_context")\<close>;
  \<^item> \<open>memory\<close> is the checkpointer: the persisted message sequence of each thread.
\<close>

record bot =
  user_id :: string
  system_prompt :: string
  max_context :: "nat option"
  llm_with_tools :: "message list \<Rightarrow> string \<times> tool_call list"
  get_num_tokens :: "string \<Rightarrow> nat"
  approx_tokens :: "message \<Rightarrow> nat"
  tools_map :: "string \<Rightarrow> tool option"
  thread_id :: string
  config :: invoke_config
  memory :: "string \<Rightarrow> message list option"

section \<open>Tool execution\<close>

text \<open>
  \<^verbatim>\<open>_setup_tools\<close>: the registry maps the names of the two tools of
  \<^verbatim>\<open>src/utils/tools.py\<close> to them.
\<close>

definition setup_tools :: "tool \<Rightarrow> tool \<Rightarrow> string \<Rightarrow> tool option" where
  "setup_tools add_update_memory fetch_memory =
     [''add_update_memory'' \<mapsto> add_update_memory, ''fetch_memory'' \<mapsto> fetch_memory]"

text \<open>
  \<^verbatim>\<open>invoke_tool\<close> inside \<^verbatim>\<open>_execute_tools\<close>. An unknown name returns before the arguments
  are touched. Otherwise \<^verbatim>\<open>args.update\<close> writes into the dictionary that the tool call
  holds, so the function returns the tool call as it is afterwards together with the
  tool-result message. Every exception of the invocation is caught, so there is no error
  result.
\<close>

definition invoke_tool :: "bot \<Rightarrow> tool_call \<Rightarrow> tool_call \<times> message" where
  "invoke_tool b tc =
     (case tools_map b (tc_name tc) of
        None \<Rightarrow> (tc, ToolMessage (tc_id tc) ''Tool doesn't exist!'')
      | Some tool_fn \<Rightarrow>
          (let args = AList.update ''user_id'' (user_id b) (tc_args tc)
           in (tc\<lparr>tc_args := args\<rparr>,
               case tool_fn args of
                 Inr res \<Rightarrow> ToolMessage (tc_id tc) res
               | Inl e \<Rightarrow> ToolMessage (tc_id tc) (''Error: '' @ e))))"

fun set_tool_calls :: "message \<Rightarrow> tool_call list \<Rightarrow> message" where
  "set_tool_calls (AIMessage c old) tcs = AIMessage c tcs"
| "set_tool_calls m tcs = m"

text \<open>
  \<^verbatim>\<open>_execute_tools\<close>: one \<^verbatim>\<open>invoke_tool\<close> per tool call of the last message, gathered in the
  order of the calls. The result is the message sequence of the state after the calls
  (the last message holds the tool calls that were written to) and the update the node
  returns, the tool-result messages.
\<close>

definition execute_tools :: "bot \<Rightarrow> message list \<Rightarrow> error + message list \<times> message list" where
  "execute_tools b messages =
     (if messages = [] then Inl IndexError
      else
        (let message = last messages;
             outcomes = map (invoke_tool b) (tool_calls message)
         in Inr (butlast messages @ [set_tool_calls message (map fst outcomes)],
                 map snd outcomes)))"

text \<open>\<^verbatim>\<open>_tool_exists\<close>: the last message is an assistant message with at least one tool call.\<close>

definition tool_exists :: "message list \<Rightarrow> error + bool" where
  "tool_exists messages =
     (if messages = [] then Inl IndexError
      else Inr (case last messages of AIMessage c tcs \<Rightarrow> tcs \<noteq> [] | _ \<Rightarrow> False))"

section \<open>The message trimmer of the chat library\<close>

text \<open>
  \<^verbatim>\<open>_trim_messages\<close> hands the sequence to \<^verbatim>\<open>trim_messages\<close> of \<^verbatim>\<open>langchain_core\<close> with
  \<^verbatim>\<open>strategy="last"\<close>, \<^verbatim>\<open>start_on="human"\<close>, \<^verbatim>\<open>end_on=("human", "assistant", "tool")\<close>,
  \<^verbatim>\<open>include_system=True\<close>, \<^verbatim>\<open>allow_partial=False\<close>. The library is not part of the
  repository; this section writes down what it computes for these arguments, step by
  step as the library does it:
  \<^enum> trailing messages whose type is not among \<^verbatim>\<open>end_on\<close> are popped;
  \<^enum> a system message at index 0 is set aside, and its token count is taken off the
    budget (not below zero);
  \<^enum> the remaining messages are reversed, and the longest prefix of the reversed list
    that fits the budget is searched (all of it when it fits, else a binary search
    bounded by the bit length of the number of messages);
  \<^enum> from the end of that prefix, messages are popped until one of type \<^verbatim>\<open>start_on\<close> is
    last;
  \<^enum> the result is reversed back and the system message put in front again.

  A message is of one of the types given as strings when its \<^verbatim>\<open>type\<close> attribute is among
  them. The attribute of an assistant message is \<^verbatim>\<open>"ai"\<close>.
\<close>

fun message_type :: "message \<Rightarrow> string" where
  "message_type (SystemMessage c) = ''system''"
| "message_type (HumanMessage c) = ''human''"
| "message_type (AIMessage c tcs) = ''ai''"
| "message_type (ToolMessage i c) = ''tool''"

definition is_message_type :: "message \<Rightarrow> string list \<Rightarrow> bool" where
  "is_message_type m types = (message_type m \<in> set types)"

text \<open>
  \<^verbatim>\<open>count_tokens_approximately\<close> charges every message on its own and adds the charges up.
  The charge of a message is its number of characters divided by 4, rounded up, plus 3.
  The characters are those of the content, of the role name, of the identifier of a tool
  message and, for an assistant message with tool calls, of the printed list of tool
  calls (\<^verbatim>\<open>repr(message.tool_calls)\<close>, whose length is the argument \<open>repr_len\<close>).
\<close>

definition count_tokens_approximately :: "(message \<Rightarrow> nat) \<Rightarrow> message list \<Rightarrow> nat" where
  "count_tokens_approximately tok ms = sum_list (map tok ms)"

fun openai_role :: "message \<Rightarrow> string" where
  "openai_role (SystemMessage c) = ''system''"
| "openai_role (HumanMessage c) = ''user''"
| "openai_role (AIMessage c tcs) = ''assistant''"
| "openai_role (ToolMessage i c) = ''tool''"

fun message_chars :: "(tool_call list \<Rightarrow> nat) \<Rightarrow> message \<Rightarrow> nat" where
  "message_chars repr_len (AIMessage c tcs) =
     length c + (if tcs \<noteq> [] then repr_len tcs else 0) + length ''assistant''"
| "message_chars repr_len (ToolMessage i c) = length c + length i + length ''tool''"
| "message_chars repr_len m = length (content m) + length (openai_role m)"

definition approx_message_tokens :: "(tool_call list \<Rightarrow> nat) \<Rightarrow> message \<Rightarrow> nat" where
  "approx_message_tokens repr_len m = (message_chars repr_len m + 3) div 4 + 3"

text \<open>
  \<^verbatim>\<open>get_buffer_string\<close>: one line per message, the role prefix, a colon, a space and the
  content; the lines are joined by line feeds.
\<close>

fun role_prefix :: "message \<Rightarrow> string" where
  "role_prefix (SystemMessage c) = ''System''"
| "role_prefix (HumanMessage c) = ''Human''"
| "role_prefix (AIMessage c tcs) = ''AI''"
| "role_prefix (ToolMessage i c) = ''Tool''"

fun join_lines :: "string list \<Rightarrow> string" where
  "join_lines [] = []"
| "join_lines [l] = l"
| "join_lines (l # ls) = l @ [CHR 0x0A] @ join_lines ls"

definition get_buffer_string :: "message list \<Rightarrow> string" where
  "get_buffer_string ms = join_lines (map (\<lambda>m. role_prefix m @ '': '' @ content m) ms)"

text \<open>\<^verbatim>\<open>while messages and not is_type(messages[-1]): messages.pop()\<close>\<close>

definition pop_until :: "(message \<Rightarrow> bool) \<Rightarrow> message list \<Rightarrow> message list" where
  "pop_until P ms = rev (dropWhile (\<lambda>m. \<not> P m) (rev ms))"

fun bit_length :: "nat \<Rightarrow> nat" where
  "bit_length n = (if n = 0 then 0 else Suc (bit_length (n div 2)))"

declare bit_length.simps [simp del]

text \<open>The binary search: \<open>i\<close> iterations are left, \<open>fits mid\<close> says that the first \<open>mid\<close>
  messages fit the budget.\<close>

fun search_fit :: "nat \<Rightarrow> (nat \<Rightarrow> bool) \<Rightarrow> nat \<Rightarrow> nat \<Rightarrow> nat" where
  "search_fit 0 fits left right = left"
| "search_fit (Suc i) fits left right =
     (if left \<ge> right then left
      else
        (let mid = (left + right + 1) div 2
         in if fits mid then search_fit i fits mid right
            else search_fit i fits left (mid - 1)))"

definition first_max_tokens ::
  "(message list \<Rightarrow> nat) \<Rightarrow> nat \<Rightarrow> string list \<Rightarrow> message list \<Rightarrow> message list" where
  "first_max_tokens token_counter max_tokens end_on ms =
     (if ms = [] then []
      else if token_counter ms \<le> max_tokens
        then pop_until (\<lambda>m. is_message_type m end_on) ms
      else
        (let idx = search_fit (bit_length (length ms))
                     (\<lambda>mid. token_counter (take mid ms) \<le> max_tokens) 0 (length ms)
         in pop_until (\<lambda>m. is_message_type m end_on) (take idx ms)))"

definition last_max_tokens ::
  "(message list \<Rightarrow> nat) \<Rightarrow> nat \<Rightarrow> string list \<Rightarrow> string list \<Rightarrow> message list
     \<Rightarrow> message list" where
  "last_max_tokens token_counter max_tokens start_on end_on ms =
     (if ms = [] then []
      else
        (case pop_until (\<lambda>m. is_message_type m end_on) ms of
           SystemMessage c # rest \<Rightarrow>
             SystemMessage c #
               rev (first_max_tokens token_counter
                      (max_tokens - token_counter [SystemMessage c]) start_on (rev rest))
         | rest \<Rightarrow> rev (first_max_tokens token_counter max_tokens start_on (rev rest))))"

section \<open>The turn executor\<close>

text \<open>\<^verbatim>\<open>_count_tokens\<close>: the model's own token count of the buffer string.\<close>

definition count_tokens :: "bot \<Rightarrow> message list \<Rightarrow> nat" where
  "count_tokens b messages = get_num_tokens b (get_buffer_string messages)"

text \<open>
  \<^verbatim>\<open>_trim_messages\<close>: the value assigned to \<^verbatim>\<open>state.messages\<close>; \<open>max_tokens\<close> is the
  argument \<^verbatim>\<open>llm_config.get("max_context", 28000)\<close>.
\<close>

definition max_tokens :: "bot \<Rightarrow> nat" where
  "max_tokens b = (case max_context b of None \<Rightarrow> 28000 | Some n \<Rightarrow> n)"

definition trim_messages :: "bot \<Rightarrow> message list \<Rightarrow> message list" where
  "trim_messages b messages =
     last_max_tokens (count_tokens_approximately (approx_tokens b)) (max_tokens b)
       [''human''] [''human'', ''assistant'', ''tool''] messages"

text \<open>
  \<^verbatim>\<open>_executor\<close>. \<open>executor_messages\<close> is \<^verbatim>\<open>state.messages\<close> when the model is invoked: the
  trimmed sequence when \<^verbatim>\<open>max_context\<close> is set, not zero, and below the token count, else
  the sequence as it is. The assignment in \<^verbatim>\<open>_trim_messages\<close> rebinds the attribute of
  the node's own state object; the node returns the response alone, and the graph
  appends it to the sequence it keeps.
\<close>

definition executor_messages :: "bot \<Rightarrow> message list \<Rightarrow> message list" where
  "executor_messages b messages =
     (case max_context b of
        None \<Rightarrow> messages
      | Some mc \<Rightarrow>
          if mc \<noteq> 0 \<and> count_tokens b messages > mc then trim_messages b messages
          else messages)"

definition executor :: "bot \<Rightarrow> message list \<Rightarrow> message list" where
  "executor b messages =
     (case llm_with_tools b (executor_messages b messages) of (c, tcs) \<Rightarrow> [AIMessage c tcs])"

section \<open>The graph\<close>

text \<open>
  \<^verbatim>\<open>_setup_graph\<close>: the entry point is the node \<open>Agent\<close>; after it the conditional edge on
  \<^verbatim>\<open>_tool_exists\<close> leads to \<open>ExecuteTools\<close> or to the end; after \<open>ExecuteTools\<close> the edge
  leads back to \<open>Agent\<close>. The graph framework (\<^verbatim>\<open>langgraph\<close>) runs one node per step, appends
  the update
  a node returns to the message sequence (the reducer \<^verbatim>\<open>operator.add\<close>), saves the
  sequence after every step, and raises its recursion error once as many steps have run
  as the recursion limit allows, also when the last of them reached the end: a turn of
  \<open>k\<close> steps needs a limit of at least \<open>k + 1\<close>. The first argument of \<open>run_graph\<close> is the
  number of steps that may still run. The first component of the result is the exception
  the run ended with, if any; the second is the sequence as it was saved last.
\<close>

datatype node = Agent | ExecuteTools

fun run_graph :: "nat \<Rightarrow> bot \<Rightarrow> node \<Rightarrow> message list \<Rightarrow> error option \<times> message list" where
  "run_graph 0 b nd ms = (Some GraphRecursionError, ms)"
| "run_graph (Suc n) b Agent ms =
     (let ms' = ms @ executor b ms
      in case tool_exists ms' of
           Inl e \<Rightarrow> (Some e, ms)
         | Inr True \<Rightarrow> run_graph n b ExecuteTools ms'
         | Inr False \<Rightarrow> if n = 0 then (Some GraphRecursionError, ms') else (None, ms'))"
| "run_graph (Suc n) b ExecuteTools ms =
     (case execute_tools b ms of
        Inl e \<Rightarrow> (Some e, ms)
      | Inr (st, upd) \<Rightarrow> run_graph n b Agent (st @ upd))"

text \<open>
  The recursion limit an invocation runs under: the entry of the invocation
  configuration, and the framework's default of 25 when there is none.
\<close>

definition recursion_limit :: "invoke_config \<Rightarrow> nat" where
  "recursion_limit cfg = (case cfg_recursion_limit cfg of None \<Rightarrow> 25 | Some n \<Rightarrow> n)"

text \<open>
  What \<^verbatim>\<open>run\<close> can hand back: the state values of the graph (the dictionary with the key
  \<^verbatim>\<open>"messages"\<close>) or a plain string.
\<close>

datatype response = Values "message list" | Str string

text \<open>
  \<^verbatim>\<open>self._graph.ainvoke(input_data, config)\<close>: the input is appended to the sequence
  persisted for the thread (empty when there is none), the graph runs from the entry
  point, and the sequence saved last is what the thread holds afterwards. A recursion
  limit below 1 is refused before anything runs.
\<close>

definition thread_messages :: "bot \<Rightarrow> string \<Rightarrow> message list" where
  "thread_messages b tid = (case memory b tid of None \<Rightarrow> [] | Some ms \<Rightarrow> ms)"

definition graph_ainvoke :: "bot \<Rightarrow> message list \<Rightarrow> invoke_config \<Rightarrow> (error + response) \<times> bot" where
  "graph_ainvoke b input_data cfg =
     (if recursion_limit cfg < 1 then (Inl ValueError, b)
      else
        (case run_graph (recursion_limit cfg) b Agent
                (thread_messages b (cfg_thread_id cfg) @ input_data) of
           (err, final) \<Rightarrow>
             (case err of None \<Rightarrow> Inr (Values final) | Some e \<Rightarrow> Inl e,
              b\<lparr>memory := (memory b)(cfg_thread_id cfg \<mapsto> final)\<rparr>)))"

section \<open>The conversation session\<close>

text \<open>
  \<^verbatim>\<open>__init__\<close>, with the configuration dictionary reduced to the keys the session reads:
  \<^verbatim>\<open>"system_prompt"\<close> and \<^verbatim>\<open>"llm"\<close> are required, \<^verbatim>\<open>"recursion_limit"\<close> defaults to 25. The
  fresh thread identifier \<open>uuid\<close> and the external collaborators are arguments.
\<close>

record llm_config =
  lc_max_context :: "nat option"

record app_config =
  ac_system_prompt :: "string option"
  ac_llm :: "llm_config option"
  ac_recursion_limit :: "nat option"

definition init ::
  "string \<Rightarrow> app_config \<Rightarrow> string \<Rightarrow> (message list \<Rightarrow> string \<times> tool_call list) \<Rightarrow>
   (string \<Rightarrow> nat) \<Rightarrow> (message \<Rightarrow> nat) \<Rightarrow> tool \<Rightarrow> tool \<Rightarrow> error + bot" where
  "init uid cfg uuid llm num_tokens approx add_update_memory fetch_memory =
     (case ac_system_prompt cfg of
        None \<Rightarrow> Inl KeyError
      | Some prompt \<Rightarrow>
          (case ac_llm cfg of
             None \<Rightarrow> Inl KeyError
           | Some llm_cfg \<Rightarrow>
               Inr \<lparr>user_id = uid, system_prompt = prompt,
                    max_context = lc_max_context llm_cfg,
                    llm_with_tools = llm, get_num_tokens = num_tokens,
                    approx_tokens = approx,
                    tools_map = setup_tools add_update_memory fetch_memory,
                    thread_id = uuid,
                    config = \<lparr>cfg_thread_id = uuid,
                               cfg_recursion_limit =
                                 Some (case ac_recursion_limit cfg of None \<Rightarrow> 25 | Some n \<Rightarrow> n)\<rparr>,
                    memory = Map.empty\<rparr>))"

text \<open>\<^verbatim>\<open>start_new_conversation\<close>, with the fresh thread identifier as argument.\<close>

definition start_new_conversation :: "string \<Rightarrow> bot \<Rightarrow> bot" where
  "start_new_conversation uuid b =
     b\<lparr>thread_id := uuid, config := \<lparr>cfg_thread_id = uuid, cfg_recursion_limit = None\<rparr>\<rparr>"

text \<open>
  \<^verbatim>\<open>run\<close>. \<open>input_data\<close> is the input built from the persisted state of the current thread
  (the two extra keys of the first branch are no channels of the graph state).
\<close>

definition input_data :: "bot \<Rightarrow> string \<Rightarrow> message list" where
  "input_data b query =
     (case memory b (cfg_thread_id (config b)) of
        None \<Rightarrow> [SystemMessage (system_prompt b), HumanMessage query]
      | Some thread_state \<Rightarrow> [HumanMessage query])"

definition run :: "bot \<Rightarrow> string \<Rightarrow> (error + response) \<times> bot" where
  "run b query = graph_ainvoke b (input_data b query) (config b)"


text \<open>
  \<^verbatim>\<open>chat_loop\<close> in \<^verbatim>\<open>src/app.py\<close>, as far as it acts on the session: the inputs of the user
  are the commands \<^verbatim>\<open>/exit\<close>, \<^verbatim>\<open>/new\<close>, \<^verbatim>\<open>/clear\<close>, \<^verbatim>\<open>/commands\<close> and queries. \<^verbatim>\<open>/new\<close> comes
  with the thread identifier that \<^verbatim>\<open>uuid.uuid4()\<close> draws for it. \<^verbatim>\<open>/clear\<close> empties the
  long-term memory, which is outside the model. An exception of \<^verbatim>\<open>run\<close> is caught and
  shown, and the loop goes on with the session as the failed turn left it.
\<close>

datatype command = Exit | New string | Clear | Commands | Query string

fun chat_loop :: "bot \<Rightarrow> command list \<Rightarrow> bot" where
  "chat_loop b [] = b"
| "chat_loop b (Exit # inputs) = b"
| "chat_loop b (New uuid # inputs) = chat_loop (start_new_conversation uuid b) inputs"
| "chat_loop b (Clear # inputs) = chat_loop b inputs"
| "chat_loop b (Commands # inputs) = chat_loop b inputs"
| "chat_loop b (Query q # inputs) = chat_loop (snd (run b q)) inputs"

section \<open>Notions used to state the claims\<close>

text \<open>
  The model asks for tools on a sequence; one round of the graph on a sequence that the
  model asks for tools on (the model step followed by the tool step); the thread
  identifiers drawn for the \<^verbatim>\<open>/new\<close> commands of a session.
\<close>

definition asks_tools :: "bot \<Rightarrow> message list \<Rightarrow> bool" where
  "asks_tools b ms = (snd (llm_with_tools b (executor_messages b ms)) \<noteq> [])"

definition tool_round :: "bot \<Rightarrow> message list \<Rightarrow> message list" where
  "tool_round b ms =
     (case execute_tools b (ms @ executor b ms) of
        Inl e \<Rightarrow> ms @ executor b ms
      | Inr (st, upd) \<Rightarrow> st @ upd)"

fun new_ids :: "command list \<Rightarrow> string list" where
  "new_ids [] = []"
| "new_ids (New uuid # inputs) = uuid # new_ids inputs"
| "new_ids (c # inputs) = new_ids inputs"

text \<open>
  The two type tests of the call in \<^verbatim>\<open>_trim_messages\<close>: \<^verbatim>\<open>start_on\<close> and \<^verbatim>\<open>end_on\<close>. Since
  the type of an assistant message is \<^verbatim>\<open>"ai"\<close>, the messages that pass the second test are
  the human and the tool messages.
\<close>

definition is_human :: "message \<Rightarrow> bool" where
  "is_human m = is_message_type m [''human'']"

definition is_end_on :: "message \<Rightarrow> bool" where
  "is_end_on m = is_message_type m [''human'', ''assistant'', ''tool'']"

text \<open>The system message at index 0, which the trimmer sets aside, as a list.\<close>

definition leading_system :: "message list \<Rightarrow> message list" where
  "leading_system ms = (case ms of SystemMessage c # rest \<Rightarrow> [SystemMessage c] | _ \<Rightarrow> [])"

text \<open>
  No valid window: every suffix of the sequence that starts on a human message costs more
  than the budget that is left after the leading system message.
\<close>

definition no_valid_window :: "(message \<Rightarrow> nat) \<Rightarrow> nat \<Rightarrow> message list \<Rightarrow> bool" where
  "no_valid_window tok mx ms =
     (\<forall>w \<in> set (suffixes ms). w \<noteq> [] \<and> is_human (hd w) \<longrightarrow>
        mx - count_tokens_approximately tok (leading_system ms)
          < count_tokens_approximately tok w)"

section \<open>Sample collaborators\<close>

text \<open>Concrete tools, tool calls, models and sessions, used to run the definitions.\<close>

definition tool_ok :: tool where
  "tool_ok a = Inr ''Memory has been added successfully.''"

definition tool_raises :: tool where
  "tool_raises a = Inl ''connection refused''"

definition call_add :: tool_call where
  "call_add = \<lparr>tc_name = ''add_update_memory'', tc_args = [(''memory'', ''likes tea'')],
               tc_id = ''call_1''\<rparr>"

definition call_fetch :: tool_call where
  "call_fetch = \<lparr>tc_name = ''fetch_memory'', tc_args = [(''query'', ''tea'')],
                 tc_id = ''call_2''\<rparr>"

definition call_unknown :: tool_call where
  "call_unknown = \<lparr>tc_name = ''web_search'', tc_args = [(''q'', ''tea'')], tc_id = ''call_3''\<rparr>"

text \<open>
  A tokenizer that counts one token for every word (a run of letters and digits) and one
  for every other character that is no space.
\<close>

definition word_char :: "char \<Rightarrow> bool" where
  "word_char c =
     (let n = (of_char c :: nat)
      in (48 \<le> n \<and> n \<le> 57) \<or> (65 \<le> n \<and> n \<le> 90) \<or> (97 \<le> n \<and> n \<le> 122))"

fun count_from :: "bool \<Rightarrow> string \<Rightarrow> nat" where
  "count_from in_word [] = 0"
| "count_from in_word (c # cs) =
     (if word_char c then (if in_word then 0 else 1) + count_from True cs
      else (if c = CHR '' '' then 0 else 1) + count_from False cs)"

definition sample_num_tokens :: "string \<Rightarrow> nat" where
  "sample_num_tokens text = count_from False text"

text \<open>
  The length of the printed list of tool calls, for names, identifiers and argument
  values that print as they are between quotes: a tool call prints as
  \<^verbatim>\<open>{'name': '...', 'args': {'k': 'v', ...}, 'id': '...', 'type': 'tool_call'}\<close>.
  With it, the charge of the library for one message.
\<close>

definition dict_repr_len :: "args \<Rightarrow> nat" where
  "dict_repr_len a =
     2 + sum_list (map (\<lambda>(k, v). length k + length v + 6) a) + 2 * (length a - 1)"

definition sample_repr_len :: "tool_call list \<Rightarrow> nat" where
  "sample_repr_len tcs =
     2 + sum_list (map (\<lambda>tc. 49 + (length (tc_name tc) + 2) + dict_repr_len (tc_args tc)
                              + (length (tc_id tc) + 2)) tcs)
       + 2 * (length tcs - 1)"

definition sample_approx :: "message \<Rightarrow> nat" where
  "sample_approx = approx_message_tokens sample_repr_len"

text \<open>A model that answers at once, one that asks for two tools and answers when it sees
  their results, one that asks for a tool every time, and one that asks for one tool
  first and for another one in every later step.\<close>

definition answering_llm :: "message list \<Rightarrow> string \<times> tool_call list" where
  "answering_llm ms = (''Hello!'', [])"


definition looping_llm :: "message list \<Rightarrow> string \<times> tool_call list" where
  "looping_llm ms = ([], [call_add])"


definition sample_bot :: bot where
  "sample_bot =
     \<lparr>user_id = ''alice'', system_prompt = ''You are helpful.'', max_context = None,
      llm_with_tools = answering_llm,
      get_num_tokens = sample_num_tokens, approx_tokens = sample_approx,
      tools_map = setup_tools tool_ok tool_raises,
      thread_id = ''t1'',
      config = \<lparr>cfg_thread_id = ''t1'', cfg_recursion_limit = Some 25\<rparr>,
      memory = Map.empty\<rparr>"

definition sample_config :: app_config where
  "sample_config =
     \<lparr>ac_system_prompt = Some ''You are helpful.'',
      ac_llm = Some \<lparr>lc_max_context = None\<rparr>,
      ac_recursion_limit = Some 3\<rparr>"

definition limited_bot :: bot where
  "limited_bot =
     sample_bot\<lparr>llm_with_tools := looping_llm,
                config := \<lparr>cfg_thread_id = ''t1'', cfg_recursion_limit = Some 3\<rparr>\<rparr>"


definition tight_bot :: bot where
  "tight_bot = sample_bot\<lparr>max_context := Some 5\<rparr>"

definition roomy_bot :: bot where
  "roomy_bot = sample_bot\<lparr>max_context := Some 10\<rparr>"



definition started_bot :: bot where
  "started_bot = sample_bot\<lparr>config := \<lparr>cfg_thread_id = ''t1'', cfg_recursion_limit = Some 3\<rparr>\<rparr>"

definition short_history :: "message list" where
  "short_history =
     [SystemMessage ''s'', HumanMessage ''q1'', AIMessage ''a1'' [], HumanMessage ''q2'']"

definition long_history :: "message list" where
  "long_history =
     [SystemMessage ''s'', HumanMessage ''tell me about tea'', AIMessage ''Tea is a drink.'' [],
      HumanMessage ''and coffee?'']"

section \<open>Properties of tool execution\<close>

lemma sample_tools_map [simp]:
  "tools_map sample_bot ''add_update_memory'' = Some tool_ok"
  "tools_map sample_bot ''fetch_memory'' = Some tool_raises"
  "tools_map sample_bot ''web_search'' = None"
  by (simp_all add: sample_bot_def setup_tools_def)

lemma sample_user_id [simp]: "user_id sample_bot = ''alice''"
  by (simp add: sample_bot_def)

lemma invoke_tool_result_id: "tool_call_id (snd (invoke_tool b tc)) = Some (tc_id tc)"
  by (simp add: invoke_tool_def Let_def split: option.splits sum.splits)


text \<open>
  C4. A tool call whose name is not in the registry is answered by the tool-result
  message with the content "Tool doesn't exist!" and the identifier of the call; the
  function has no error result, and the tool call is returned as it was.
\<close>

theorem unknown_tool_message:
  assumes "tools_map b (tc_name tc) = None"
  shows "invoke_tool b tc = (tc, ToolMessage (tc_id tc) ''Tool doesn't exist!'')"
  using assms by (simp add: invoke_tool_def)

theorem unknown_tool_message_witness:
  "tools_map sample_bot (tc_name call_unknown) = None \<and>
   invoke_tool sample_bot call_unknown =
     (call_unknown, ToolMessage ''call_3'' ''Tool doesn't exist!'')"
proof -
  have h: "tools_map sample_bot (tc_name call_unknown) = None"
    by (simp add: call_unknown_def)
  from unknown_tool_message [OF h] h show ?thesis
    by (simp add: call_unknown_def)
qed

text \<open>
  C5. When the invocation of a registered tool raises an exception with message \<open>e\<close>, the
  call is answered by the tool-result message "Error: e" with the identifier of the call.
  The step still returns its update: every sibling call before and after the failing one
  is answered by its own \<open>invoke_tool\<close>, exactly as it is without the failure.
\<close>

theorem raising_tool_message:
  assumes "tools_map b (tc_name tc) = Some tool_fn"
    and "tool_fn (AList.update ''user_id'' (user_id b) (tc_args tc)) = Inl e"
  shows "snd (invoke_tool b tc) = ToolMessage (tc_id tc) (''Error: '' @ e) \<and>
         map_sum id snd (execute_tools b (ms @ [AIMessage c (pre @ tc # post)])) =
           Inr (map (snd \<circ> invoke_tool b) pre
                @ ToolMessage (tc_id tc) (''Error: '' @ e)
                # map (snd \<circ> invoke_tool b) post)"
  using assms by (simp add: invoke_tool_def execute_tools_def Let_def)

theorem raising_tool_message_witness:
  "tools_map sample_bot (tc_name call_fetch) = Some tool_raises \<and>
   tool_raises (AList.update ''user_id'' (user_id sample_bot) (tc_args call_fetch))
     = Inl ''connection refused'' \<and>
   snd (invoke_tool sample_bot call_fetch)
     = ToolMessage ''call_2'' ''Error: connection refused'' \<and>
   map_sum id snd
     (execute_tools sample_bot
        [HumanMessage ''hi'', AIMessage [] [call_add, call_fetch, call_unknown]])
     = Inr [ToolMessage ''call_1'' ''Memory has been added successfully.'',
            ToolMessage ''call_2'' ''Error: connection refused'',
            ToolMessage ''call_3'' ''Tool doesn't exist!'']"
proof -
  have h1: "tools_map sample_bot (tc_name call_fetch) = Some tool_raises"
    by (simp add: call_fetch_def)
  have h2: "tool_raises (AList.update ''user_id'' (user_id sample_bot) (tc_args call_fetch))
              = Inl ''connection refused''"
    by (simp add: tool_raises_def)
  have a: "snd (invoke_tool sample_bot call_add)
             = ToolMessage ''call_1'' ''Memory has been added successfully.''"
    by (simp add: invoke_tool_def call_add_def tool_ok_def)
  have u: "snd (invoke_tool sample_bot call_unknown)
             = ToolMessage ''call_3'' ''Tool doesn't exist!''"
    by (simp add: invoke_tool_def call_unknown_def)
  from raising_tool_message [OF h1 h2, of "[HumanMessage ''hi'']" "[]" "[call_add]"
      "[call_unknown]"] h1 h2 a u
  show ?thesis by (simp add: call_fetch_def)
qed

text \<open>
  C9, as the claim states it, fails for a tool call with an unknown name: its arguments
  are not written to, and the assistant message that embeds it is the same after the step.
\<close>

theorem unknown_tool_args_untouched:
  "map_of (tc_args (fst (invoke_tool sample_bot call_unknown))) ''user_id'' = None \<and>
   map_sum id fst (execute_tools sample_bot [HumanMessage ''hi'', AIMessage [] [call_unknown]])
     = Inr [HumanMessage ''hi'', AIMessage [] [call_unknown]]"
  by (simp add: invoke_tool_def execute_tools_def call_unknown_def)

text \<open>
  C9, amended. The step writes the session's user identifier under the key "user_id"
  into the arguments of every tool call whose name is in the registry, and into no other:
  a tool call with an unknown name keeps its arguments. The assistant message that embeds
  the calls holds the written arguments after the step.
\<close>

theorem registered_tool_args_updated:
  "fst (invoke_tool b tc) =
     (if tools_map b (tc_name tc) = None then tc
      else tc\<lparr>tc_args := AList.update ''user_id'' (user_id b) (tc_args tc)\<rparr>) \<and>
   map_of (tc_args (fst (invoke_tool b tc))) ''user_id'' =
     (if tools_map b (tc_name tc) = None then map_of (tc_args tc) ''user_id''
      else Some (user_id b)) \<and>
   map_sum id fst (execute_tools b (ms @ [AIMessage c tcs])) =
     Inr (ms @ [AIMessage c (map (fst \<circ> invoke_tool b) tcs)])"
  by (auto simp: invoke_tool_def execute_tools_def Let_def AList.update_conv'
      split: option.splits)

theorem registered_tool_args_updated_witness:
  "fst (invoke_tool sample_bot call_add) =
     \<lparr>tc_name = ''add_update_memory'',
      tc_args = [(''memory'', ''likes tea''), (''user_id'', ''alice'')],
      tc_id = ''call_1''\<rparr> \<and>
   map_of (tc_args (fst (invoke_tool sample_bot call_add))) ''user_id'' = Some ''alice''"
  using registered_tool_args_updated [of sample_bot call_add "[]" "[]" "[]"]
  by (simp add: call_add_def)

section \<open>Properties of trimming\<close>

lemma pop_until_keep: "ms \<noteq> [] \<Longrightarrow> P (last ms) \<Longrightarrow> pop_until P ms = ms"
  by (cases ms rule: rev_cases) (auto simp: pop_until_def)

lemma pop_until_prefix: "prefix (pop_until P ms) ms"
proof -
  have "suffix (dropWhile (\<lambda>m. \<not> P m) (rev ms)) (rev ms)"
    by (rule suffix_dropWhile)
  then show ?thesis by (simp add: pop_until_def suffix_to_prefix)
qed

lemma pop_until_last: "pop_until P ms \<noteq> [] \<Longrightarrow> P (last (pop_until P ms))"
  unfolding pop_until_def
  by (metis (mono_tags, lifting) hd_dropWhile last_rev rev_is_Nil_conv)

lemma sum_prefix_le: "prefix xs ys \<Longrightarrow> sum_list (map (tok::'a \<Rightarrow> nat) xs) \<le> sum_list (map tok ys)"
  by (auto simp: prefix_def)

lemma search_fit_fits: "fits left \<Longrightarrow> fits (search_fit i fits left right)"
  by (induction i fits left right rule: search_fit.induct) (auto simp: Let_def)

lemma is_human_simps [simp]:
  "is_human (SystemMessage c) = False" "is_human (HumanMessage c) = True"
  "is_human (AIMessage c tcs) = False" "is_human (ToolMessage i c) = False"
  by (simp_all add: is_human_def is_message_type_def)

lemma is_end_on_simps [simp]:
  "is_end_on (SystemMessage c) = False" "is_end_on (HumanMessage c) = True"
  "is_end_on (AIMessage c tcs) = False" "is_end_on (ToolMessage i c) = True"
  by (simp_all add: is_end_on_def is_message_type_def)

lemma first_max_tokens_shape:
  fixes tok :: "message \<Rightarrow> nat" and mx ts xs
  defines "r \<equiv> first_max_tokens (count_tokens_approximately tok) mx ts xs"
  shows "prefix r xs" and "r \<noteq> [] \<Longrightarrow> is_message_type (last r) ts"
    and "sum_list (map tok r) \<le> mx"
proof -
  let ?cnt = "count_tokens_approximately tok"
  let ?P = "\<lambda>m. is_message_type m ts"
  let ?idx = "search_fit (bit_length (length xs)) (\<lambda>mid. ?cnt (take mid xs) \<le> mx) 0 (length xs)"
  have r_cases: "r = [] \<or> (?cnt xs \<le> mx \<and> r = pop_until ?P xs) \<or> (r = pop_until ?P (take ?idx xs))"
    by (auto simp: r_def first_max_tokens_def Let_def)
  have fit: "?cnt (take ?idx xs) \<le> mx"
    by (rule search_fit_fits) (simp add: count_tokens_approximately_def)
  show "prefix r xs"
    using r_cases pop_until_prefix [of ?P xs] pop_until_prefix [of ?P "take ?idx xs"]
    by (auto intro: prefix_order.trans take_is_prefix)
  show "r \<noteq> [] \<Longrightarrow> is_message_type (last r) ts"
    using r_cases pop_until_last [of ?P xs] pop_until_last [of ?P "take ?idx xs"]
    by auto
  show "sum_list (map tok r) \<le> mx"
    using r_cases fit sum_prefix_le [OF pop_until_prefix, of tok ?P xs]
      sum_prefix_le [OF pop_until_prefix, of tok ?P "take ?idx xs"]
    by (auto simp: count_tokens_approximately_def)
qed

lemma rev_first_max_tokens_shape:
  fixes tok :: "message \<Rightarrow> nat"
  assumes "rest \<noteq> []" "is_message_type (last rest) es"
  shows "\<exists>pre body. rest = pre @ body \<and>
           rev (first_max_tokens (count_tokens_approximately tok) mx ss (rev rest)) = body \<and>
           (body = [] \<or> is_message_type (hd body) ss \<and> is_message_type (last body) es) \<and>
           sum_list (map tok body) \<le> mx"
proof -
  define r where "r = first_max_tokens (count_tokens_approximately tok) mx ss (rev rest)"
  have p: "prefix r (rev rest)"
    unfolding r_def by (rule first_max_tokens_shape(1))
  have l: "r \<noteq> [] \<Longrightarrow> is_message_type (last r) ss"
    unfolding r_def by (erule first_max_tokens_shape(2))
  have f: "sum_list (map tok r) \<le> mx"
    unfolding r_def by (rule first_max_tokens_shape(3))
  from p obtain zs where zs: "rev rest = r @ zs" by (auto simp: prefix_def)
  then have "rev (rev rest) = rev (r @ zs)" by simp
  then have split: "rest = rev zs @ rev r" by simp
  have h: "rev r \<noteq> [] \<Longrightarrow> is_message_type (hd (rev r)) ss"
    using l by (simp add: hd_rev)
  have e: "rev r \<noteq> [] \<Longrightarrow> is_message_type (last (rev r)) es"
  proof -
    assume "rev r \<noteq> []"
    then have "last (rev zs @ rev r) = last (rev r)" by simp
    with assms(2) show ?thesis unfolding split by simp
  qed
  have s: "sum_list (map tok (rev r)) \<le> mx"
    using f by (simp add: rev_map [symmetric])
  have d: "rev r = [] \<or> is_message_type (hd (rev r)) ss \<and> is_message_type (last (rev r)) es"
    using h e by blast
  show ?thesis
    unfolding r_def [symmetric]
    by (rule exI [of _ "rev zs"], rule exI [of _ "rev r"], intro conjI)
      (rule split, rule refl, rule d, rule s)
qed

lemma leading_system_Cons [simp]:
  "leading_system (SystemMessage c # rest) = [SystemMessage c]"
  by (simp add: leading_system_def)

lemma leading_system_other:
  "\<not> (\<exists>c rest. ms = SystemMessage c # rest) \<Longrightarrow> leading_system ms = []"
  unfolding leading_system_def
  by (cases ms) (simp, rename_tac m rest, case_tac m, simp_all)

lemma last_max_tokens_system:
  assumes "pop_until (\<lambda>m. is_message_type m es) (SystemMessage c # rest) = SystemMessage c # rest"
  shows "last_max_tokens cnt mx ss es (SystemMessage c # rest) =
     SystemMessage c # rev (first_max_tokens cnt (mx - cnt [SystemMessage c]) ss (rev rest))"
  unfolding last_max_tokens_def assms by simp

lemma last_max_tokens_other:
  assumes "pop_until (\<lambda>m. is_message_type m es) ms = ms"
    "\<not> (\<exists>c rest. ms = SystemMessage c # rest)"
  shows "last_max_tokens cnt mx ss es ms = rev (first_max_tokens cnt mx ss (rev ms))"
proof (cases ms)
  case Nil
  then show ?thesis by (simp add: last_max_tokens_def first_max_tokens_def)
next
  case (Cons m rest)
  with assms(2) show ?thesis
    unfolding last_max_tokens_def assms(1)
    by (cases m) simp_all
qed

lemma last_max_tokens_shape:
  fixes tok :: "message \<Rightarrow> nat"
  assumes "ms \<noteq> []" "is_message_type (last ms) es" "''system'' \<notin> set es"
  shows "\<exists>pre body. ms = leading_system ms @ pre @ body \<and>
           last_max_tokens (count_tokens_approximately tok) mx ss es ms = leading_system ms @ body \<and>
           (body = [] \<or> is_message_type (hd body) ss \<and> is_message_type (last body) es) \<and>
           sum_list (map tok body) \<le> mx - sum_list (map tok (leading_system ms))"
proof -
  have keep: "pop_until (\<lambda>m. is_message_type m es) ms = ms"
    using assms(1,2) by (rule pop_until_keep)
  show ?thesis
  proof (cases "\<exists>c rest. ms = SystemMessage c # rest")
    case True
    then obtain c rest where ms: "ms = SystemMessage c # rest" by blast
    have nosys: "\<not> is_message_type (SystemMessage c) es"
      using assms(3) by (simp add: is_message_type_def)
    have r1: "rest \<noteq> []"
      using assms(2) nosys unfolding ms by (cases rest) simp_all
    have r2: "is_message_type (last rest) es"
      using assms(2) r1 unfolding ms by simp
    obtain pre body where b: "rest = pre @ body"
      "rev (first_max_tokens (count_tokens_approximately tok) (mx - tok (SystemMessage c))
          ss (rev rest)) = body"
      "body = [] \<or> is_message_type (hd body) ss \<and> is_message_type (last body) es"
      "sum_list (map tok body) \<le> mx - tok (SystemMessage c)"
      using rev_first_max_tokens_shape [OF r1 r2, of tok "mx - tok (SystemMessage c)" ss] by blast
    have res: "last_max_tokens (count_tokens_approximately tok) mx ss es ms = SystemMessage c # body"
      using last_max_tokens_system [OF keep [unfolded ms]] b(2)
      by (simp add: ms count_tokens_approximately_def)
    have f1: "ms = leading_system ms @ pre @ body"
      by (simp add: ms b(1))
    have f2: "last_max_tokens (count_tokens_approximately tok) mx ss es ms
        = leading_system ms @ body"
      by (simp add: res) (simp add: ms)
    have f4: "sum_list (map tok body) \<le> mx - sum_list (map tok (leading_system ms))"
      using b(4) by (simp add: ms)
    show ?thesis
      by (rule exI [of _ pre], rule exI [of _ body], intro conjI)
        (rule f1, rule f2, rule b(3), rule f4)
  next
    case False
    then have ls: "leading_system ms = []" by (rule leading_system_other)
    obtain pre body where b: "ms = pre @ body"
      "rev (first_max_tokens (count_tokens_approximately tok) mx ss (rev ms)) = body"
      "body = [] \<or> is_message_type (hd body) ss \<and> is_message_type (last body) es"
      "sum_list (map tok body) \<le> mx"
      using rev_first_max_tokens_shape [OF assms(1,2), of tok mx ss] by blast
    have f2: "last_max_tokens (count_tokens_approximately tok) mx ss es ms
        = leading_system ms @ body"
      using last_max_tokens_other [OF keep False] b(2) by (simp add: ls)
    have f1: "ms = leading_system ms @ pre @ body"
      unfolding ls using b(1) by simp
    have f4: "sum_list (map tok body) \<le> mx - sum_list (map tok (leading_system ms))"
      using b(4) by (simp add: ls)
    show ?thesis
      by (rule exI [of _ pre], rule exI [of _ body], intro conjI)
        (rule f1, rule f2, rule b(3), rule f4)
  qed
qed

lemma trim_messages_shape:
  assumes "messages \<noteq> []" "is_end_on (last messages)"
  shows "\<exists>pre body. messages = leading_system messages @ pre @ body \<and>
           trim_messages b messages = leading_system messages @ body \<and>
           (body = [] \<or> is_human (hd body) \<and> is_end_on (last body)) \<and>
           count_tokens_approximately (approx_tokens b) body
             \<le> max_tokens b - count_tokens_approximately (approx_tokens b) (leading_system messages)"
proof -
  have eq: "sum_list (map (approx_tokens b) xs) = count_tokens_approximately (approx_tokens b) xs"
    for xs by (simp add: count_tokens_approximately_def)
  have e: "is_message_type (last messages) [''human'', ''assistant'', ''tool'']"
    using assms(2) by (simp only: is_end_on_def)
  have n: "''system'' \<notin> set [''human'', ''assistant'', ''tool'']" by simp
  show ?thesis
    using last_max_tokens_shape [OF assms(1) e n, of "approx_tokens b" "max_tokens b" "[''human'']"]
    unfolding eq trim_messages_def is_human_def is_end_on_def .
qed

lemma sample_costs [simp]:
  "approx_tokens sample_bot = sample_approx"
  "get_num_tokens sample_bot = sample_num_tokens"
  by (simp_all add: sample_bot_def)

text \<open>
  C2, as the claim states it, fails: with a budget of 5 tokens, a system message of 5
  tokens and a human message of 7, no suffix that starts on a human message fits, and the
  trimming step does not keep the two messages but returns the system message alone.
\<close>

theorem trim_drops_unfitting_history:
  "no_valid_window (approx_tokens tight_bot) (max_tokens tight_bot)
     [SystemMessage ''s'', HumanMessage ''hello there''] \<and>
   trim_messages tight_bot [SystemMessage ''s'', HumanMessage ''hello there'']
     = [SystemMessage ''s''] \<and>
   trim_messages tight_bot [SystemMessage ''s'', HumanMessage ''hello there'']
     \<noteq> [SystemMessage ''s'', HumanMessage ''hello there'']"
  by code_simp

text \<open>
  C2, amended. For a sequence that ends on a human or tool message (as it does whenever
  the executor runs) and has no suffix that starts on a human message and fits
  the budget left after the leading system message, the trimming step does not keep the
  sequence: it returns the leading system message alone, or the empty sequence when there
  is none. It returns normally; there is no error result.
\<close>

theorem trim_without_valid_window:
  assumes "messages \<noteq> []" and "is_end_on (last messages)"
    and "no_valid_window (approx_tokens b) (max_tokens b) messages"
  shows "trim_messages b messages = leading_system messages"
proof -
  from trim_messages_shape [OF assms(1,2), of b]
  obtain pre body where
    split: "messages = leading_system messages @ pre @ body" and
    res: "trim_messages b messages = leading_system messages @ body" and
    starts: "body = [] \<or> is_human (hd body) \<and> is_end_on (last body)" and
    fits: "count_tokens_approximately (approx_tokens b) body
             \<le> max_tokens b - count_tokens_approximately (approx_tokens b) (leading_system messages)"
    by blast
  have "body = []"
  proof (rule ccontr)
    assume nonempty: "body \<noteq> []"
    have "suffix body messages"
      unfolding suffix_def using split by (metis append.assoc)
    then have "body \<in> set (suffixes messages)" by simp
    moreover have "is_human (hd body)" using starts nonempty by simp
    ultimately have
      "max_tokens b - count_tokens_approximately (approx_tokens b) (leading_system messages)
         < count_tokens_approximately (approx_tokens b) body"
      using assms(3) nonempty unfolding no_valid_window_def by blast
    with fits show False by simp
  qed
  with res show ?thesis by simp
qed

theorem trim_without_valid_window_witness:
  "[HumanMessage ''hello there'', HumanMessage ''and more please''] \<noteq> [] \<and>
   is_end_on (last [HumanMessage ''hello there'', HumanMessage ''and more please'']) \<and>
   no_valid_window (approx_tokens tight_bot) (max_tokens tight_bot)
     [HumanMessage ''hello there'', HumanMessage ''and more please''] \<and>
   trim_messages tight_bot [HumanMessage ''hello there'', HumanMessage ''and more please''] = []"
proof -
  let ?ms = "[HumanMessage ''hello there'', HumanMessage ''and more please'']"
  have h1: "?ms \<noteq> []" by simp
  have h2: "is_end_on (last ?ms)" by simp
  have h3: "no_valid_window (approx_tokens tight_bot) (max_tokens tight_bot) ?ms"
    by code_simp
  from trim_without_valid_window [OF h1 h2 h3] h1 h2 h3 show ?thesis
    by (simp add: leading_system_def)
qed

lemma bit_length_bound: "n < 2 ^ bit_length n"
proof (induction n rule: bit_length.induct)
  case (1 n)
  show ?case
  proof (cases "n = 0")
    case True
    then show ?thesis by (simp add: bit_length.simps)
  next
    case False
    with 1 have "n div 2 < 2 ^ bit_length (n div 2)" by simp
    then have "n < 2 * 2 ^ bit_length (n div 2)" by linarith
    with False show ?thesis by (simp add: bit_length.simps [of n])
  qed
qed

lemma search_fit_max:
  assumes mono: "\<And>j k. j \<le> k \<Longrightarrow> fits k \<Longrightarrow> fits j"
  shows "fits l \<Longrightarrow> l \<le> r \<Longrightarrow> r - l < 2 ^ i \<Longrightarrow>
     fits (search_fit i fits l r) \<and> search_fit i fits l r \<le> r \<and>
     (\<forall>k. search_fit i fits l r < k \<and> k \<le> r \<longrightarrow> \<not> fits k)"
proof (induction i arbitrary: l r)
  case 0
  then show ?case by auto
next
  case (Suc i)
  show ?case
  proof (cases "r \<le> l")
    case True
    with Suc.prems show ?thesis by auto
  next
    case False
    define mid where "mid = (l + r + 1) div 2"
    from False have m: "l < mid" "mid \<le> r" unfolding mid_def by linarith+
    have step: "search_fit (Suc i) fits l r =
        (if fits mid then search_fit i fits mid r else search_fit i fits l (mid - 1))"
      using False by (simp add: mid_def Let_def)
    show ?thesis
    proof (cases "fits mid")
      case True
      have "r - mid < 2 ^ i" using Suc.prems(3) m unfolding mid_def by simp
      from Suc.IH [OF True m(2) this] True show ?thesis
        unfolding step by simp
    next
      case nofit: False
      have "mid - 1 - l < 2 ^ i" using Suc.prems(3) m unfolding mid_def by simp
      moreover have "l \<le> mid - 1" using m by simp
      ultimately have ih: "fits (search_fit i fits l (mid - 1)) \<and>
          search_fit i fits l (mid - 1) \<le> mid - 1 \<and>
          (\<forall>k. search_fit i fits l (mid - 1) < k \<and> k \<le> mid - 1 \<longrightarrow> \<not> fits k)"
        using Suc.IH [OF Suc.prems(1)] by blast
      have above: "\<not> fits k" if "mid \<le> k" for k
        using mono [OF that] nofit by blast
      have "\<not> fits k" if "search_fit i fits l (mid - 1) < k" for k
      proof (cases "k \<le> mid - 1")
        case True
        with ih that show ?thesis by blast
      next
        case False
        then have "mid \<le> k" by simp
        then show ?thesis by (rule above)
      qed
      with ih m nofit show ?thesis
        unfolding step by auto
    qed
  qed
qed

lemma first_max_tokens_exact:
  fixes tok :: "message \<Rightarrow> nat"
  shows "\<exists>k\<le>length xs.
           sum_list (map tok (take k xs)) \<le> mx \<and>
           (k = length xs \<or> mx < sum_list (map tok (take (Suc k) xs))) \<and>
           first_max_tokens (count_tokens_approximately tok) mx ts xs
             = pop_until (\<lambda>m. is_message_type m ts) (take k xs)"
proof -
  let ?cnt = "count_tokens_approximately tok"
  let ?fits = "\<lambda>mid. ?cnt (take mid xs) \<le> mx"
  let ?idx = "search_fit (bit_length (length xs)) ?fits 0 (length xs)"
  show ?thesis
  proof (cases "xs = [] \<or> ?cnt xs \<le> mx")
    case True
    then have "first_max_tokens ?cnt mx ts xs = pop_until (\<lambda>m. is_message_type m ts) (take (length xs) xs)"
      by (auto simp: first_max_tokens_def pop_until_def)
    moreover from True have "sum_list (map tok (take (length xs) xs)) \<le> mx"
      by (auto simp: count_tokens_approximately_def)
    ultimately show ?thesis by blast
  next
    case False
    have mono: "?fits k \<Longrightarrow> ?fits j" if "j \<le> k" for j k
    proof -
      from that have "take j xs = take j (take k xs)" by (simp add: min_def)
      then have "prefix (take j xs) (take k xs)" by (metis take_is_prefix)
      from sum_prefix_le [OF this, of tok] show "?fits k \<Longrightarrow> ?fits j"
        by (simp add: count_tokens_approximately_def)
    qed
    have f0: "?fits 0" by (simp add: count_tokens_approximately_def)
    have "length xs - 0 < 2 ^ bit_length (length xs)"
      using bit_length_bound [of "length xs"] by simp
    from search_fit_max [where fits = ?fits, OF mono f0 _ this]
    have s: "?fits ?idx" "?idx \<le> length xs" "\<forall>k. ?idx < k \<and> k \<le> length xs \<longrightarrow> \<not> ?fits k"
      by simp_all
    have "?idx = length xs \<or> mx < sum_list (map tok (take (Suc ?idx) xs))"
    proof (cases "?idx = length xs")
      case True
      then show ?thesis by simp
    next
      case False
      with s(2) have "?idx < Suc ?idx \<and> Suc ?idx \<le> length xs" by simp
      with s(3) have "\<not> ?fits (Suc ?idx)" by blast
      then show ?thesis by (simp add: count_tokens_approximately_def)
    qed
    moreover have "first_max_tokens ?cnt mx ts xs = pop_until (\<lambda>m. is_message_type m ts) (take ?idx xs)"
      using False by (simp add: first_max_tokens_def Let_def)
    moreover have "sum_list (map tok (take ?idx xs)) \<le> mx"
      using s(1) by (simp add: count_tokens_approximately_def)
    ultimately show ?thesis using s(2) by blast
  qed
qed


lemma rev_first_max_tokens_exact:
  fixes tok :: "message \<Rightarrow> nat"
  shows "\<exists>pre win. rest = pre @ win \<and>
           sum_list (map tok win) \<le> mx \<and>
           (pre = [] \<or> mx < sum_list (map tok (last pre # win))) \<and>
           rev (first_max_tokens (count_tokens_approximately tok) mx ss (rev rest))
             = dropWhile (\<lambda>m. \<not> is_message_type m ss) win"
proof -
  from first_max_tokens_exact [of "rev rest" tok mx ss]
  obtain k where k: "k \<le> length (rev rest)"
    "sum_list (map tok (take k (rev rest))) \<le> mx"
    "k = length (rev rest) \<or> mx < sum_list (map tok (take (Suc k) (rev rest)))"
    "first_max_tokens (count_tokens_approximately tok) mx ss (rev rest)
       = pop_until (\<lambda>m. is_message_type m ss) (take k (rev rest))"
    by blast
  define A where "A = take k (rev rest)"
  define B where "B = drop k (rev rest)"
  have "rev rest = A @ B" by (simp add: A_def B_def)
  then have "rev (rev rest) = rev (A @ B)" by simp
  then have split: "rest = rev B @ rev A" by simp
  have fit: "sum_list (map tok (rev A)) \<le> mx"
    using k(2) by (simp add: A_def rev_map [symmetric])
  have more: "rev B = [] \<or> mx < sum_list (map tok (last (rev B) # rev A))"
  proof (cases "B = []")
    case True
    then show ?thesis by simp
  next
    case False
    then have lt: "k < length (rev rest)" by (simp add: B_def)
    with k(3) have big: "mx < sum_list (map tok (take (Suc k) (rev rest)))" by simp
    have "take (Suc k) (rev rest) = A @ [rev rest ! k]"
      unfolding A_def using lt by (rule take_Suc_conv_app_nth)
    moreover have "hd B = rev rest ! k"
      unfolding B_def using lt by (simp add: hd_drop_conv_nth)
    moreover have "last (rev B) = hd B" using False by (simp add: last_rev)
    ultimately show ?thesis
      using big by (simp add: rev_map [symmetric] add.commute)
  qed
  have res: "rev (first_max_tokens (count_tokens_approximately tok) mx ss (rev rest))
      = dropWhile (\<lambda>m. \<not> is_message_type m ss) (rev A)"
    by (simp add: k(4) pop_until_def A_def)
  show ?thesis
    by (rule exI [of _ "rev B"], rule exI [of _ "rev A"], intro conjI)
      (rule split, rule fit, rule more, rule res)
qed

lemma last_max_tokens_exact:
  fixes tok :: "message \<Rightarrow> nat"
  assumes "ms \<noteq> []" "is_message_type (last ms) es" "''system'' \<notin> set es"
  shows "\<exists>pre win. ms = leading_system ms @ pre @ win \<and>
           sum_list (map tok win) \<le> mx - sum_list (map tok (leading_system ms)) \<and>
           (pre = [] \<or>
            mx - sum_list (map tok (leading_system ms)) < sum_list (map tok (last pre # win))) \<and>
           last_max_tokens (count_tokens_approximately tok) mx ss es ms
             = leading_system ms @ dropWhile (\<lambda>m. \<not> is_message_type m ss) win"
proof -
  have keep: "pop_until (\<lambda>m. is_message_type m es) ms = ms"
    using assms(1,2) by (rule pop_until_keep)
  show ?thesis
  proof (cases "\<exists>c rest. ms = SystemMessage c # rest")
    case True
    then obtain c rest where ms: "ms = SystemMessage c # rest" by blast
    obtain pre win where b: "rest = pre @ win"
      "sum_list (map tok win) \<le> mx - tok (SystemMessage c)"
      "pre = [] \<or> mx - tok (SystemMessage c) < sum_list (map tok (last pre # win))"
      "rev (first_max_tokens (count_tokens_approximately tok) (mx - tok (SystemMessage c))
          ss (rev rest)) = dropWhile (\<lambda>m. \<not> is_message_type m ss) win"
      using rev_first_max_tokens_exact [of rest tok "mx - tok (SystemMessage c)" ss] by blast
    have f1: "ms = leading_system ms @ pre @ win"
      by (simp add: ms b(1))
    have f2: "sum_list (map tok win) \<le> mx - sum_list (map tok (leading_system ms))"
      using b(2) by (simp add: ms)
    have f3: "pre = [] \<or>
        mx - sum_list (map tok (leading_system ms)) < sum_list (map tok (last pre # win))"
      using b(3) by (simp add: ms)
    have "last_max_tokens (count_tokens_approximately tok) mx ss es ms
        = SystemMessage c # dropWhile (\<lambda>m. \<not> is_message_type m ss) win"
      using last_max_tokens_system [OF keep [unfolded ms]] b(4)
      by (simp add: ms count_tokens_approximately_def)
    then have f4: "last_max_tokens (count_tokens_approximately tok) mx ss es ms
        = leading_system ms @ dropWhile (\<lambda>m. \<not> is_message_type m ss) win"
      by (simp add: ms)
    show ?thesis
      by (rule exI [of _ pre], rule exI [of _ win], intro conjI)
        (rule f1, rule f2, rule f3, rule f4)
  next
    case False
    then have ls: "leading_system ms = []" by (rule leading_system_other)
    obtain pre win where b: "ms = pre @ win"
      "sum_list (map tok win) \<le> mx"
      "pre = [] \<or> mx < sum_list (map tok (last pre # win))"
      "rev (first_max_tokens (count_tokens_approximately tok) mx ss (rev ms))
         = dropWhile (\<lambda>m. \<not> is_message_type m ss) win"
      using rev_first_max_tokens_exact [of ms tok mx ss] by blast
    have f1: "ms = leading_system ms @ pre @ win"
      unfolding ls using b(1) by simp
    have f2: "sum_list (map tok win) \<le> mx - sum_list (map tok (leading_system ms))"
      using b(2) by (simp add: ls)
    have f3: "pre = [] \<or>
        mx - sum_list (map tok (leading_system ms)) < sum_list (map tok (last pre # win))"
      using b(3) by (simp add: ls)
    have f4: "last_max_tokens (count_tokens_approximately tok) mx ss es ms
        = leading_system ms @ dropWhile (\<lambda>m. \<not> is_message_type m ss) win"
      using last_max_tokens_other [OF keep False] b(4) by (simp add: ls)
    show ?thesis
      by (rule exI [of _ pre], rule exI [of _ win], intro conjI)
        (rule f1, rule f2, rule f3, rule f4)
  qed
qed

lemma trim_messages_exact:
  assumes "messages \<noteq> []" "is_end_on (last messages)"
  shows "\<exists>pre win. messages = leading_system messages @ pre @ win \<and>
           count_tokens_approximately (approx_tokens b) win
             \<le> max_tokens b - count_tokens_approximately (approx_tokens b) (leading_system messages) \<and>
           (pre = [] \<or>
            max_tokens b - count_tokens_approximately (approx_tokens b) (leading_system messages)
              < count_tokens_approximately (approx_tokens b) (last pre # win)) \<and>
           trim_messages b messages
             = leading_system messages @ dropWhile (\<lambda>m. \<not> is_human m) win"
proof -
  have eq: "sum_list (map (approx_tokens b) xs) = count_tokens_approximately (approx_tokens b) xs"
    for xs by (simp add: count_tokens_approximately_def)
  have e: "is_message_type (last messages) [''human'', ''assistant'', ''tool'']"
    using assms(2) by (simp only: is_end_on_def)
  have n: "''system'' \<notin> set [''human'', ''assistant'', ''tool'']" by simp
  show ?thesis
    using last_max_tokens_exact [OF assms(1) e n, of "approx_tokens b" "max_tokens b" "[''human'']"]
    unfolding eq trim_messages_def is_human_def .
qed


text \<open>
  C3, as the claim states it, fails: with a maximum context of 10 and a history whose
  approximate count is 30, the executor does trim, but the budget left after the system
  message (5 tokens) is below the charge of the last human message (7), so the model is
  sent the system message alone: no window that starts on a human message.
\<close>

theorem executor_sends_system_alone:
  "max_context roomy_bot = Some 10 \<and>
   count_tokens_approximately (approx_tokens roomy_bot) long_history = 30 \<and>
   executor_messages roomy_bot long_history = [SystemMessage ''s'']"
  by code_simp

text \<open>
  C3, amended. For every sequence that ends on a human or tool message (as it does
  whenever the executor runs) and whose token count by the model's tokenizer over the
  buffer string exceeds a configured maximum context other than zero, the executor
  invokes the model on the trimmed sequence. That sequence is the leading system message,
  when there is one, followed by a window: the other messages split into \<open>pre\<close> and \<open>win\<close>,
  where \<open>win\<close> is the longest suffix within the approximate-token budget left after the
  system message (\<open>win\<close> fits, and \<open>win\<close> with one more message in front does not), and the
  window is \<open>win\<close> from its first human message on. The window is empty or starts on a
  human message and ends on a message that passes the \<^verbatim>\<open>end_on\<close> test (a human or tool
  message).
\<close>

theorem executor_trims_over_budget:
  assumes "max_context b = Some mc" and "mc \<noteq> 0" and "mc < count_tokens b messages"
    and "messages \<noteq> []" and "is_end_on (last messages)"
  shows "executor_messages b messages = trim_messages b messages \<and>
         executor b messages =
           [AIMessage (fst (llm_with_tools b (trim_messages b messages)))
                      (snd (llm_with_tools b (trim_messages b messages)))] \<and>
         (\<exists>pre win.
            messages = leading_system messages @ pre @ win \<and>
            count_tokens_approximately (approx_tokens b) win
              \<le> mc - count_tokens_approximately (approx_tokens b) (leading_system messages) \<and>
            (pre = [] \<or>
             mc - count_tokens_approximately (approx_tokens b) (leading_system messages)
               < count_tokens_approximately (approx_tokens b) (last pre # win)) \<and>
            trim_messages b messages
              = leading_system messages @ dropWhile (\<lambda>m. \<not> is_human m) win \<and>
            (dropWhile (\<lambda>m. \<not> is_human m) win = [] \<or>
             is_human (hd (dropWhile (\<lambda>m. \<not> is_human m) win)) \<and>
             is_end_on (last (dropWhile (\<lambda>m. \<not> is_human m) win))))"
proof -
  have gate: "executor_messages b messages = trim_messages b messages"
    using assms(1-3) by (simp add: executor_messages_def)
  have call: "executor b messages =
      [AIMessage (fst (llm_with_tools b (trim_messages b messages)))
                 (snd (llm_with_tools b (trim_messages b messages)))]"
    by (simp add: executor_def gate split: prod.splits)
  have mx: "max_tokens b = mc"
    using assms(1) by (simp add: max_tokens_def)
  from trim_messages_exact [OF assms(4,5), of b]
  obtain pre win where w:
    "messages = leading_system messages @ pre @ win"
    "count_tokens_approximately (approx_tokens b) win
       \<le> mc - count_tokens_approximately (approx_tokens b) (leading_system messages)"
    "pre = [] \<or>
     mc - count_tokens_approximately (approx_tokens b) (leading_system messages)
       < count_tokens_approximately (approx_tokens b) (last pre # win)"
    "trim_messages b messages = leading_system messages @ dropWhile (\<lambda>m. \<not> is_human m) win"
    unfolding mx by blast
  let ?body = "dropWhile (\<lambda>m. \<not> is_human m) win"
  have ends: "?body = [] \<or> is_human (hd ?body) \<and> is_end_on (last ?body)"
  proof (cases "?body = []")
    case True
    then show ?thesis by simp
  next
    case False
    then have h: "is_human (hd ?body)" using hd_dropWhile [of "\<lambda>m. \<not> is_human m" win] by simp
    from False have wn: "win \<noteq> []" by auto
    have "win = takeWhile (\<lambda>m. \<not> is_human m) win @ ?body" by simp
    then have "last win = last ?body" using False by (metis last_appendR)
    moreover have "last messages = last win"
      using w(1) wn by (metis last_appendR append_is_Nil_conv)
    ultimately have "is_end_on (last ?body)" using assms(5) by simp
    with h show ?thesis by simp
  qed
  show ?thesis
    by (intro conjI, rule gate, rule call, rule exI [of _ pre], rule exI [of _ win], intro conjI)
      (rule w(1), rule w(2), rule w(3), rule w(4), rule ends)
qed

theorem executor_trims_over_budget_witness:
  "max_context roomy_bot = Some 10 \<and> (10::nat) \<noteq> 0 \<and>
   10 < count_tokens roomy_bot short_history \<and>
   short_history \<noteq> [] \<and> is_end_on (last short_history) \<and>
   executor_messages roomy_bot short_history = trim_messages roomy_bot short_history \<and>
   trim_messages roomy_bot short_history = [SystemMessage ''s'', HumanMessage ''q2'']"
proof -
  have h1: "max_context roomy_bot = Some 10" by (simp add: roomy_bot_def)
  have h2: "(10::nat) \<noteq> 0" by simp
  have h3: "10 < count_tokens roomy_bot short_history" by code_simp
  have h4: "short_history \<noteq> []" by (simp add: short_history_def)
  have h5: "is_end_on (last short_history)" by (simp add: short_history_def)
  have t: "trim_messages roomy_bot short_history = [SystemMessage ''s'', HumanMessage ''q2'']"
    by code_simp
  from executor_trims_over_budget [OF h1 h2 h3 h4 h5]
  have "executor_messages roomy_bot short_history = trim_messages roomy_bot short_history"
    by blast
  with h1 h2 h3 h4 h5 t show ?thesis by blast
qed

section \<open>Properties of the graph and the session\<close>

lemma executor_eq:
  "executor b ms =
     [AIMessage (fst (llm_with_tools b (executor_messages b ms)))
                (snd (llm_with_tools b (executor_messages b ms)))]"
  by (simp add: executor_def split: prod.splits)

lemma tool_exists_executor:
  "tool_exists (ms @ executor b ms) = Inr (asks_tools b ms)"
  by (simp add: tool_exists_def executor_eq asks_tools_def)

lemma execute_tools_snoc:
  "execute_tools b (ms @ [AIMessage c tcs]) =
     Inr (ms @ [AIMessage c (map (fst \<circ> invoke_tool b) tcs)], map (snd \<circ> invoke_tool b) tcs)"
  by (simp add: execute_tools_def Let_def)

lemma tool_round_eq:
  "tool_round b ms =
     ms @ [AIMessage (fst (llm_with_tools b (executor_messages b ms)))
             (map (fst \<circ> invoke_tool b) (snd (llm_with_tools b (executor_messages b ms))))]
        @ map (snd \<circ> invoke_tool b) (snd (llm_with_tools b (executor_messages b ms)))"
  by (simp add: tool_round_def executor_eq execute_tools_snoc)

lemma run_graph_tools_step:
  "run_graph (Suc n) b ExecuteTools (ms @ [AIMessage c tcs]) =
     run_graph n b Agent
       (ms @ [AIMessage c (map (fst \<circ> invoke_tool b) tcs)] @ map (snd \<circ> invoke_tool b) tcs)"
  by (simp add: execute_tools_snoc)

lemma run_graph_agent_one:
  "run_graph (Suc 0) b Agent ms = (Some GraphRecursionError, ms @ executor b ms)"
  by (cases "asks_tools b ms") (simp_all add: Let_def tool_exists_executor)

lemma run_graph_agent_two:
  "run_graph (Suc (Suc n)) b Agent ms =
     (if asks_tools b ms then run_graph n b Agent (tool_round b ms)
      else (None, ms @ executor b ms))"
proof (cases "asks_tools b ms")
  case True
  have "run_graph (Suc (Suc n)) b Agent ms = run_graph (Suc n) b ExecuteTools (ms @ executor b ms)"
    using True by (simp add: Let_def tool_exists_executor)
  also have "\<dots> = run_graph n b Agent (tool_round b ms)"
    unfolding executor_eq run_graph_tools_step tool_round_eq by simp
  finally show ?thesis using True by simp
next
  case False
  then show ?thesis by (simp add: Let_def tool_exists_executor)
qed

declare run_graph.simps(2,3) [simp del]

lemma run_graph_prefix: "prefix ms (snd (run_graph n b Agent ms))"
proof (induction n arbitrary: ms rule: less_induct)
  case (less n)
  show ?case
  proof (cases n)
    case 0
    then show ?thesis by simp
  next
    case (Suc m)
    show ?thesis
    proof (cases m)
      case 0
      with Suc show ?thesis by (simp add: run_graph_agent_one)
    next
      case (Suc k)
      have "prefix ms (tool_round b ms)" by (simp add: tool_round_eq)
      moreover have "prefix (tool_round b ms) (snd (run_graph k b Agent (tool_round b ms)))"
        using less [of k] \<open>n = Suc m\<close> Suc by simp
      ultimately have "prefix ms (snd (run_graph k b Agent (tool_round b ms)))"
        by (rule prefix_order.trans)
      with \<open>n = Suc m\<close> Suc show ?thesis by (simp add: run_graph_agent_two)
    qed
  qed
qed

lemma run_graph_first_answer:
  assumes "0 < n"
  shows "\<exists>tcs rest. snd (run_graph n b Agent ms) =
           ms @ AIMessage (fst (llm_with_tools b (executor_messages b ms))) tcs # rest"
proof -
  from assms obtain m where n: "n = Suc m" by (cases n) simp_all
  show ?thesis
  proof (cases m)
    case 0
    with n show ?thesis by (simp add: run_graph_agent_one executor_eq)
  next
    case (Suc k)
    show ?thesis
    proof (cases "asks_tools b ms")
      case True
      from run_graph_prefix [of "tool_round b ms" k b]
      obtain more where "snd (run_graph k b Agent (tool_round b ms)) = tool_round b ms @ more"
        by (auto simp: prefix_def)
      with True n Suc show ?thesis
        by (simp add: run_graph_agent_two tool_round_eq)
    next
      case False
      with n Suc show ?thesis by (simp add: run_graph_agent_two executor_eq)
    qed
  qed
qed







lemma run_result:
  assumes "0 < recursion_limit (config b)"
    and "run_graph (recursion_limit (config b)) b Agent
           (thread_messages b (cfg_thread_id (config b)) @ input_data b q) = (err, final)"
  shows "run b q =
      (case err of None \<Rightarrow> Inr (Values final) | Some e \<Rightarrow> Inl e,
       b\<lparr>memory := (memory b)(cfg_thread_id (config b) \<mapsto> final)\<rparr>)"
  using assms by (simp add: run_def graph_ainvoke_def)









lemma input_ends_on_human:
  "thread_messages b tid @ input_data b q \<noteq> [] \<and>
   is_end_on (last (thread_messages b tid @ input_data b q))"
  by (simp add: input_data_def split: option.splits)

lemma tool_message_end_on: "tool_call_id m = Some i \<Longrightarrow> is_end_on m"
  by (cases m) simp_all

lemma tool_round_ends_on_tool:
  assumes "asks_tools b ms"
  shows "tool_round b ms \<noteq> [] \<and> is_end_on (last (tool_round b ms))"
proof -
  let ?tcs = "snd (llm_with_tools b (executor_messages b ms))"
  from assms have ne: "?tcs \<noteq> []" by (simp add: asks_tools_def)
  then have "last (tool_round b ms) = snd (invoke_tool b (last ?tcs))"
    by (simp add: tool_round_eq last_map)
  moreover have "tool_call_id (snd (invoke_tool b (last ?tcs))) = Some (tc_id (last ?tcs))"
    by (rule invoke_tool_result_id)
  ultimately have "tool_call_id (last (tool_round b ms)) = Some (tc_id (last ?tcs))"
    by simp
  then have "is_end_on (last (tool_round b ms))" by (rule tool_message_end_on)
  then show ?thesis by (simp add: tool_round_eq)
qed





lemma run_frame:
  "system_prompt (snd (run b q)) = system_prompt b"
  "config (snd (run b q)) = config b"
  "u \<noteq> cfg_thread_id (config b) \<Longrightarrow> memory (snd (run b q)) u = memory b u"
  by (simp_all add: run_def graph_ainvoke_def split: prod.splits)

lemma chat_loop_system_prompt: "system_prompt (chat_loop b inputs) = system_prompt b"
  by (induction b inputs rule: chat_loop.induct)
    (simp_all add: run_frame start_new_conversation_def)

lemma chat_loop_fresh:
  "memory b u = None \<Longrightarrow> u \<noteq> cfg_thread_id (config b) \<Longrightarrow> u \<notin> set (new_ids inputs) \<Longrightarrow>
   memory (chat_loop b inputs) u = None"
proof (induction b inputs rule: chat_loop.induct)
  case (3 b uuid inputs)
  then show ?case by (simp add: start_new_conversation_def)
next
  case (6 b q inputs)
  then show ?case by (simp add: run_frame)
qed simp_all

lemma init_fresh:
  assumes "init uid ac u0 llm nt ap t1 t2 = Inr b0"
  shows "memory b0 = Map.empty" "cfg_thread_id (config b0) = u0"
  using assms by (auto simp: init_def split: option.splits)

lemma run_persists_first_answer:
  assumes "0 < recursion_limit (config b)"
  shows "\<exists>tcs rest. memory (snd (run b q)) (cfg_thread_id (config b)) =
           Some ((thread_messages b (cfg_thread_id (config b)) @ input_data b q) @
                 AIMessage (fst (llm_with_tools b (executor_messages b
                    (thread_messages b (cfg_thread_id (config b)) @ input_data b q)))) tcs # rest)"
proof -
  let ?start = "thread_messages b (cfg_thread_id (config b)) @ input_data b q"
  obtain err final where rg:
    "run_graph (recursion_limit (config b)) b Agent ?start = (err, final)"
    by (cases "run_graph (recursion_limit (config b)) b Agent ?start")
  from run_graph_first_answer [OF assms, of b ?start] rg
  obtain tcs rest where
    "final = ?start @ AIMessage (fst (llm_with_tools b (executor_messages b ?start))) tcs # rest"
    by auto
  then show ?thesis by (simp add: run_result [OF assms rg])
qed

text \<open>
  C7. When nothing is persisted for the thread of the session, the input of \<open>run\<close> is the
  system message with the fixed prompt followed by the human message with the query; the
  model is invoked on this sequence (as the executor passes it on), and the thread
  persisted by the turn is this sequence followed by the answer of the model and what
  the turn appends after it. When a sequence \<open>st\<close> is persisted for the thread, the input is
  the human message alone, the model is invoked on \<open>st\<close> followed by it, and the thread
  persisted by the turn is \<open>st\<close>, the human message, the answer and what the turn appends.
  (A recursion limit of zero is refused before anything runs or is persisted.) In a
  session that starts from \<open>init\<close> and goes through any inputs of the chat loop, a thread
  identifier that was not drawn before has no persisted state; so the first run after
  \<open>start_new_conversation\<close> with such an identifier is seeded with the system message and
  the human message, and the threads persisted before stay as they are.
\<close>

theorem run_seeds_or_appends:
  fixes b0 u inputs
  defines "fresh \<equiv> start_new_conversation u (chat_loop b0 inputs)"
  shows
  "(memory b (cfg_thread_id (config b)) = None \<longrightarrow>
      input_data b q = [SystemMessage (system_prompt b), HumanMessage q] \<and>
      (0 < recursion_limit (config b) \<longrightarrow>
         (\<exists>tcs rest. memory (snd (run b q)) (cfg_thread_id (config b)) =
            Some ([SystemMessage (system_prompt b), HumanMessage q] @
                  AIMessage (fst (llm_with_tools b (executor_messages b
                     [SystemMessage (system_prompt b), HumanMessage q]))) tcs # rest)))) \<and>
   (\<forall>st. memory b (cfg_thread_id (config b)) = Some st \<longrightarrow>
      input_data b q = [HumanMessage q] \<and>
      (0 < recursion_limit (config b) \<longrightarrow>
         (\<exists>tcs rest. memory (snd (run b q)) (cfg_thread_id (config b)) =
            Some ((st @ [HumanMessage q]) @
                  AIMessage (fst (llm_with_tools b (executor_messages b
                     (st @ [HumanMessage q])))) tcs # rest)))) \<and>
   (init uid ac u0 llm nt ap t1 t2 = Inr b0 \<and> u \<notin> set (u0 # new_ids inputs) \<longrightarrow>
      memory (chat_loop b0 inputs) u = None \<and>
      memory fresh = memory (chat_loop b0 inputs) \<and>
      cfg_thread_id (config fresh) = u \<and>
      input_data fresh q' = [SystemMessage (system_prompt b0), HumanMessage q'] \<and>
      (\<exists>tcs rest. memory (snd (run fresh q')) u =
         Some ([SystemMessage (system_prompt b0), HumanMessage q'] @
               AIMessage (fst (llm_with_tools fresh (executor_messages fresh
                  [SystemMessage (system_prompt b0), HumanMessage q']))) tcs # rest)))"
proof (intro conjI impI allI)
  assume none: "memory b (cfg_thread_id (config b)) = None"
  then show i: "input_data b q = [SystemMessage (system_prompt b), HumanMessage q]"
    by (simp add: input_data_def)
  assume pos: "0 < recursion_limit (config b)"
  from none have "thread_messages b (cfg_thread_id (config b)) = []"
    by (simp add: thread_messages_def)
  with run_persists_first_answer [OF pos, of q] i
  show "\<exists>tcs rest. memory (snd (run b q)) (cfg_thread_id (config b)) =
            Some ([SystemMessage (system_prompt b), HumanMessage q] @
                  AIMessage (fst (llm_with_tools b (executor_messages b
                     [SystemMessage (system_prompt b), HumanMessage q]))) tcs # rest)"
    by simp
next
  fix st
  assume some: "memory b (cfg_thread_id (config b)) = Some st"
  then show i: "input_data b q = [HumanMessage q]"
    by (simp add: input_data_def)
  assume pos: "0 < recursion_limit (config b)"
  from some have "thread_messages b (cfg_thread_id (config b)) = st"
    by (simp add: thread_messages_def)
  with run_persists_first_answer [OF pos, of q] i
  show "\<exists>tcs rest. memory (snd (run b q)) (cfg_thread_id (config b)) =
            Some ((st @ [HumanMessage q]) @
                  AIMessage (fst (llm_with_tools b (executor_messages b
                     (st @ [HumanMessage q])))) tcs # rest)"
    by simp
next
  assume h: "init uid ac u0 llm nt ap t1 t2 = Inr b0 \<and> u \<notin> set (u0 # new_ids inputs)"
  then have ini: "init uid ac u0 llm nt ap t1 t2 = Inr b0"
    and u0: "u \<noteq> u0" and new: "u \<notin> set (new_ids inputs)" by auto
  show none: "memory (chat_loop b0 inputs) u = None"
    using init_fresh [OF ini] u0 new by (intro chat_loop_fresh) simp_all
  show "memory fresh = memory (chat_loop b0 inputs)"
    by (simp add: fresh_def start_new_conversation_def)
  show tid: "cfg_thread_id (config fresh) = u"
    by (simp add: fresh_def start_new_conversation_def)
  have fnone: "memory fresh (cfg_thread_id (config fresh)) = None"
    using none by (simp add: fresh_def start_new_conversation_def)
  have prompt: "system_prompt fresh = system_prompt b0"
    by (simp add: fresh_def start_new_conversation_def chat_loop_system_prompt)
  show i: "input_data fresh q' = [SystemMessage (system_prompt b0), HumanMessage q']"
    using fnone by (simp add: input_data_def prompt)
  have pos: "0 < recursion_limit (config fresh)"
    by (simp add: fresh_def start_new_conversation_def recursion_limit_def)
  from fnone have "thread_messages fresh (cfg_thread_id (config fresh)) = []"
    by (simp add: thread_messages_def)
  with run_persists_first_answer [OF pos, of q'] i tid
  show "\<exists>tcs rest. memory (snd (run fresh q')) u =
         Some ([SystemMessage (system_prompt b0), HumanMessage q'] @
               AIMessage (fst (llm_with_tools fresh (executor_messages fresh
                  [SystemMessage (system_prompt b0), HumanMessage q']))) tcs # rest)"
    by simp
qed


theorem run_seeds_or_appends_witness:
  "memory sample_bot (cfg_thread_id (config sample_bot)) = None \<and>
   input_data sample_bot ''hi'' = [SystemMessage (system_prompt sample_bot), HumanMessage ''hi''] \<and>
   memory (snd (run sample_bot ''hi'')) (cfg_thread_id (config (snd (run sample_bot ''hi''))))
     = Some [SystemMessage ''You are helpful.'', HumanMessage ''hi'', AIMessage ''Hello!'' []] \<and>
   input_data (snd (run sample_bot ''hi'')) ''again'' = [HumanMessage ''again''] \<and>
   memory (snd (run (snd (run sample_bot ''hi'')) ''again'')) ''t1''
     = Some [SystemMessage ''You are helpful.'', HumanMessage ''hi'', AIMessage ''Hello!'' [],
             HumanMessage ''again'', AIMessage ''Hello!'' []] \<and>
   init ''alice'' sample_config ''t1'' answering_llm sample_num_tokens sample_approx
     tool_ok tool_raises = Inr started_bot \<and>
   ''t3'' \<notin> set (''t1'' # new_ids [Query ''hi'', New ''t2'', Query ''more'', Clear]) \<and>
   memory (chat_loop started_bot [Query ''hi'', New ''t2'', Query ''more'', Clear]) ''t3'' = None \<and>
   input_data (start_new_conversation ''t3''
       (chat_loop started_bot [Query ''hi'', New ''t2'', Query ''more'', Clear])) ''bye''
     = [SystemMessage (system_prompt started_bot), HumanMessage ''bye''] \<and>
   memory (snd (run (start_new_conversation ''t3''
       (chat_loop started_bot [Query ''hi'', New ''t2'', Query ''more'', Clear])) ''bye'')) ''t3''
     = Some [SystemMessage ''You are helpful.'', HumanMessage ''bye'', AIMessage ''Hello!'' []] \<and>
   memory (snd (run (start_new_conversation ''t3''
       (chat_loop started_bot [Query ''hi'', New ''t2'', Query ''more'', Clear])) ''bye'')) ''t1''
     = Some [SystemMessage ''You are helpful.'', HumanMessage ''hi'', AIMessage ''Hello!'' []]"
proof -
  let ?b1 = "snd (run sample_bot ''hi'')"
  let ?inputs = "[Query ''hi'', New ''t2'', Query ''more'', Clear]"
  let ?fresh = "start_new_conversation ''t3'' (chat_loop started_bot ?inputs)"
  have h0: "memory sample_bot (cfg_thread_id (config sample_bot)) = None"
    by (simp add: sample_bot_def)
  have h1: "memory ?b1 (cfg_thread_id (config ?b1))
      = Some [SystemMessage ''You are helpful.'', HumanMessage ''hi'', AIMessage ''Hello!'' []]"
    by code_simp
  have h2: "init ''alice'' sample_config ''t1'' answering_llm sample_num_tokens sample_approx
     tool_ok tool_raises = Inr started_bot"
    by (simp add: init_def sample_config_def started_bot_def sample_bot_def)
  have h3: "''t3'' \<notin> set (''t1'' # new_ids ?inputs)" by simp
  have e1: "memory (snd (run ?b1 ''again'')) ''t1''
     = Some [SystemMessage ''You are helpful.'', HumanMessage ''hi'', AIMessage ''Hello!'' [],
             HumanMessage ''again'', AIMessage ''Hello!'' []]"
    by code_simp
  have e2: "memory (snd (run ?fresh ''bye'')) ''t3''
     = Some [SystemMessage ''You are helpful.'', HumanMessage ''bye'', AIMessage ''Hello!'' []]"
    by code_simp
  have e3: "memory (snd (run ?fresh ''bye'')) ''t1''
     = Some [SystemMessage ''You are helpful.'', HumanMessage ''hi'', AIMessage ''Hello!'' []]"
    by code_simp
  note a = run_seeds_or_appends [where b = sample_bot and q = "''hi''",
      THEN conjunct1, THEN mp, OF h0, THEN conjunct1]
  note b = run_seeds_or_appends [where b = ?b1 and q = "''again''",
      THEN conjunct2, THEN conjunct1, THEN spec, THEN mp, OF h1, THEN conjunct1]
  note c = run_seeds_or_appends [where ?b0.0 = started_bot and u = "''t3''"
      and inputs = ?inputs and q' = "''bye''",
      THEN conjunct2, THEN conjunct2, THEN mp, OF conjI [OF h2 h3]]
  show ?thesis
    by (intro conjI) (rule h0, rule a, rule h1, rule b, rule e1, rule h2, rule h3,
      rule c [THEN conjunct1], rule c [THEN conjunct2, THEN conjunct2, THEN conjunct2, THEN conjunct1],
      rule e2, rule e3)
qed

text \<open>
  C8 on the code: a session is constructed with a recursion limit of 3 and a model that
  asks for a tool every time. Its first turn fails with the recursion error after 3
  steps (the thread holds the 2 seeded messages and 3 more). After
  \<open>start_new_conversation\<close> the same configuration no longer bounds the turn: it runs 25
  steps, the framework's default, before it fails.
\<close>

theorem configured_ceiling_lost_after_reset:
  "init ''alice'' sample_config ''t1'' looping_llm sample_num_tokens sample_approx
       tool_ok tool_raises = Inr limited_bot \<and>
   ac_recursion_limit sample_config = Some 3 \<and>
   fst (run limited_bot ''hi'') = Inl GraphRecursionError \<and>
   length (thread_messages (snd (run limited_bot ''hi'')) ''t1'') = 2 + 3 \<and>
   fst (run (start_new_conversation ''t2'' limited_bot) ''hi'') = Inl GraphRecursionError \<and>
   length (thread_messages (snd (run (start_new_conversation ''t2'' limited_bot) ''hi'')) ''t2'')
     = 2 + 25"
proof -
  have "init ''alice'' sample_config ''t1'' looping_llm sample_num_tokens sample_approx
       tool_ok tool_raises = Inr limited_bot"
    by (simp add: init_def sample_config_def limited_bot_def sample_bot_def answering_llm_def)
  moreover have "ac_recursion_limit sample_config = Some 3"
    by (simp add: sample_config_def)
  moreover have "fst (run limited_bot ''hi'') = Inl GraphRecursionError" by code_simp
  moreover have "length (thread_messages (snd (run limited_bot ''hi'')) ''t1'') = 2 + 3"
    by code_simp
  moreover have "fst (run (start_new_conversation ''t2'' limited_bot) ''hi'')
      = Inl GraphRecursionError"
    by code_simp
  moreover have
    "length (thread_messages (snd (run (start_new_conversation ''t2'' limited_bot) ''hi'')) ''t2'')
       = 2 + 25"
    by code_simp
  ultimately show ?thesis by blast
qed

text \<open>
  C10. After \<open>start_new_conversation\<close> the invocation configuration holds the new thread
  identifier and no recursion limit, whatever the configuration was before: the entry
  that \<open>init\<close> sets (the configured limit, or 25) is gone, the session after the call does
  not depend on the old configuration, and the next \<open>run\<close> invokes the graph with the new
  configuration, under the framework's default limit.
\<close>

theorem reset_drops_recursion_limit:
  "config (start_new_conversation uuid b) = \<lparr>cfg_thread_id = uuid, cfg_recursion_limit = None\<rparr> \<and>
   start_new_conversation uuid (b\<lparr>config := cfg\<rparr>) = start_new_conversation uuid b \<and>
   run (start_new_conversation uuid b) q =
     graph_ainvoke (start_new_conversation uuid b)
       (input_data (start_new_conversation uuid b) q)
       \<lparr>cfg_thread_id = uuid, cfg_recursion_limit = None\<rparr> \<and>
   recursion_limit (config (start_new_conversation uuid b)) = 25 \<and>
   (map_sum id (\<lambda>b0. cfg_recursion_limit (config b0))
        (init uid ac tid llm num_tokens approx add_update_memory fetch_memory)
      = Inl KeyError \<or>
    map_sum id (\<lambda>b0. cfg_recursion_limit (config b0))
        (init uid ac tid llm num_tokens approx add_update_memory fetch_memory)
      = Inr (Some (case ac_recursion_limit ac of None \<Rightarrow> 25 | Some n \<Rightarrow> n)))"
  by (simp add: start_new_conversation_def run_def recursion_limit_def init_def
      split: option.splits)

theorem reset_drops_recursion_limit_witness:
  "cfg_recursion_limit (config limited_bot) = Some 3 \<and>
   config (start_new_conversation ''t2'' limited_bot)
     = \<lparr>cfg_thread_id = ''t2'', cfg_recursion_limit = None\<rparr> \<and>
   recursion_limit (config (start_new_conversation ''t2'' limited_bot)) = 25"
proof -
  have c: "cfg_recursion_limit (config limited_bot) = Some 3"
    by (simp add: limited_bot_def)
  from reset_drops_recursion_limit [of "''t2''" limited_bot "config limited_bot" "''hi''"
      "''alice''" sample_config "''t1''" looping_llm sample_num_tokens sample_approx
      tool_ok tool_raises] c
  show ?thesis by blast
qed

end
